theory Spec2Isabelle
  imports Main
begin

section \<open>The TodoList contract (contracts/TodoList.sol)\<close>

subsection \<open>Data\<close>

text \<open>
  A \<open>uint256\<close> is read as a natural number: it has no negative values, and the values
  the contract computes (array lengths and indices below them) stay far below \<open>2 ^ 256\<close>,
  since storage cannot hold that many entries; so the additions \<open>i + 1\<close> and \<open>i++\<close>
  of the loop, both bounded by \<open>todos.length\<close>, never wrap. Solidity 0.8 also checks
  every subtraction; the subtraction \<open>todos.length - 1\<close> keeps its check in the model.
\<close>

type_synonym uint256 = nat

text \<open>
  \<open>struct Todo { string text; bool completed; }\<close>. The field \<open>text\<close> is called
  \<open>text_field\<close> here, \<open>text\<close> being a command of the theory language.
\<close>

record Todo =
  text_field :: string
  completed :: bool

text \<open>The three events of the contract, each with its arguments in declaration order.\<close>

datatype event =
    TodoAdded uint256 string
  | TodoToggled uint256 bool
  | TodoRemoved uint256

text \<open>
  What a transaction can change: the storage array \<open>todos\<close> and the log of emitted
  events, oldest first.
\<close>

record contract_state =
  todos :: "Todo list"
  event_log :: "event list"

text \<open>
  A failing \<open>require\<close> reverts with \<open>Error(string)\<close>; a failing compiler check reverts
  with \<open>Panic(code)\<close>: 17 (0x11) arithmetic overflow or underflow, 49 (0x31) \<open>pop\<close> on
  an empty array, 50 (0x32) index out of bounds.
\<close>

datatype error = Error string | Panic nat

text \<open>The revert of both bounds checks, which the specification calls OutOfRange.\<close>

definition OutOfRange :: error where
  "OutOfRange = Error ''Todo does not exist''"

text \<open>
  The values a call hands back to its caller, in the order of the \<open>returns\<close> clause.
  A function declared without \<open>returns\<close> hands back the empty list.
\<close>

datatype abi_value = VUint uint256 | VBool bool | VString string

type_synonym 'a result = "error + 'a"

subsection \<open>Checked primitives of Solidity 0.8\<close>

definition checked_sub :: "uint256 \<Rightarrow> uint256 \<Rightarrow> uint256 result" where
  "checked_sub a b = (if b \<le> a then Inr (a - b) else Inl (Panic 17))"

definition array_at :: "'a list \<Rightarrow> uint256 \<Rightarrow> 'a result" where
  "array_at xs i = (if i < length xs then Inr (xs ! i) else Inl (Panic 50))"

definition array_set :: "'a list \<Rightarrow> uint256 \<Rightarrow> 'a \<Rightarrow> 'a list result" where
  "array_set xs i v = (if i < length xs then Inr (xs[i := v]) else Inl (Panic 50))"

definition array_push :: "'a list \<Rightarrow> 'a \<Rightarrow> 'a list" where
  "array_push xs v = xs @ [v]"

definition array_pop :: "'a list \<Rightarrow> 'a list result" where
  "array_pop xs = (if xs = [] then Inl (Panic 49) else Inr (butlast xs))"

definition emit :: "event \<Rightarrow> contract_state \<Rightarrow> contract_state" where
  "emit e s = s\<lparr>event_log := event_log s @ [e]\<rparr>"

subsection \<open>The functions of the contract\<close>

text \<open>
  \<open>addTodo\<close>: push \<open>Todo(_text, false)\<close>, then emit \<open>TodoAdded(todos.length - 1, _text)\<close>.
  There is no \<open>returns\<close> clause.
\<close>

definition addTodo :: "string \<Rightarrow> contract_state \<Rightarrow> (abi_value list \<times> contract_state) result" where
  "addTodo text_arg s =
     (let s1 = s\<lparr>todos := array_push (todos s) \<lparr>text_field = text_arg, completed = False\<rparr>\<rparr> in
      case checked_sub (length (todos s1)) 1 of
        Inl e \<Rightarrow> Inl e
      | Inr n \<Rightarrow> Inr ([], emit (TodoAdded n text_arg) s1))"

text \<open>
  \<open>toggleTodo\<close>: the bounds \<open>require\<close>, then
  \<open>todos[_index].completed = !todos[_index].completed\<close>, then
  \<open>emit TodoToggled(_index, todos[_index].completed)\<close>, which reads the flag back from
  storage.
\<close>

definition toggleTodo :: "uint256 \<Rightarrow> contract_state \<Rightarrow> (abi_value list \<times> contract_state) result" where
  "toggleTodo index s =
     (if \<not> index < length (todos s) then Inl (Error ''Todo does not exist'')
      else case array_at (todos s) index of
        Inl e \<Rightarrow> Inl e
      | Inr t \<Rightarrow>
          (case array_set (todos s) index (t\<lparr>completed := \<not> completed t\<rparr>) of
             Inl e \<Rightarrow> Inl e
           | Inr ts \<Rightarrow>
               (let s1 = s\<lparr>todos := ts\<rparr> in
                case array_at (todos s1) index of
                  Inl e \<Rightarrow> Inl e
                | Inr t1 \<Rightarrow> Inr ([], emit (TodoToggled index (completed t1)) s1))))"

text \<open>
  The loop of \<open>removeTodo\<close>:
  \<open>for (uint i = _index; i < todos.length - 1; i++) { todos[i] = todos[i + 1]; }\<close>.
  The loop state is the variable \<open>i\<close> and the array. The first argument \<open>k\<close> is not a
  variable of the program: it counts the executions of the loop body and is handed back
  with the final array.
\<close>

function removeTodo_loop :: "nat \<Rightarrow> uint256 \<Rightarrow> Todo list \<Rightarrow> (nat \<times> Todo list) result" where
  "removeTodo_loop k i ts =
     (case checked_sub (length ts) 1 of
        Inl e \<Rightarrow> Inl e
      | Inr bound \<Rightarrow>
          if i < bound then
            (case array_at ts (i + 1) of
               Inl e \<Rightarrow> Inl e
             | Inr v \<Rightarrow>
                 (case array_set ts i v of
                    Inl e \<Rightarrow> Inl e
                  | Inr ts' \<Rightarrow> removeTodo_loop (Suc k) (i + 1) ts'))
          else Inr (k, ts))"
  by pat_completeness auto
termination
  by (relation "measure (\<lambda>(k, i, ts). length ts - i)")
     (auto simp: checked_sub_def array_set_def split: if_splits)

declare removeTodo_loop.simps [simp del]

text \<open>
  \<open>removeTodo\<close>: the bounds \<open>require\<close>, the shifting loop, \<open>todos.pop()\<close>, then
  \<open>emit TodoRemoved(_index)\<close>.
\<close>

definition removeTodo :: "uint256 \<Rightarrow> contract_state \<Rightarrow> (abi_value list \<times> contract_state) result" where
  "removeTodo index s =
     (if \<not> index < length (todos s) then Inl (Error ''Todo does not exist'')
      else case removeTodo_loop 0 index (todos s) of
        Inl e \<Rightarrow> Inl e
      | Inr (k, ts) \<Rightarrow>
          (case array_pop ts of
             Inl e \<Rightarrow> Inl e
           | Inr ts' \<Rightarrow> Inr ([], emit (TodoRemoved index) (s\<lparr>todos := ts'\<rparr>))))"

text \<open>The two \<open>view\<close> functions: they read storage and change nothing.\<close>

definition getTodos :: "contract_state \<Rightarrow> Todo list" where
  "getTodos s = todos s"

definition getTodoCount :: "contract_state \<Rightarrow> uint256" where
  "getTodoCount s = length (todos s)"

subsection \<open>Transactions\<close>

text \<open>
  A call of one of the three state-changing functions. A transaction that reverts leaves
  storage and the event log as they were before it; one that succeeds commits both.
\<close>

datatype call = AddTodo string | ToggleTodo uint256 | RemoveTodo uint256

fun dispatch :: "call \<Rightarrow> contract_state \<Rightarrow> (abi_value list \<times> contract_state) result" where
  "dispatch (AddTodo text_arg) s = addTodo text_arg s"
| "dispatch (ToggleTodo index) s = toggleTodo index s"
| "dispatch (RemoveTodo index) s = removeTodo index s"

definition transact :: "contract_state \<Rightarrow> call \<Rightarrow> contract_state" where
  "transact s c = (case dispatch c s of Inl e \<Rightarrow> s | Inr (r, s') \<Rightarrow> s')"

definition run :: "call list \<Rightarrow> contract_state \<Rightarrow> contract_state" where
  "run cs s = foldl transact s cs"

text \<open>The freshly deployed contract: no entries, nothing emitted.\<close>

definition initial :: contract_state where
  "initial = \<lparr>todos = [], event_log = []\<rparr>"

subsection \<open>Replaying an event log\<close>

text \<open>
  The replay of the specification's event-fidelity property, written from its words: an
  Added event inserts \<open>{text, completed = false}\<close> at the tail, a Toggled event sets the
  flag at its recorded position to the recorded value, a Removed event deletes the entry
  at its recorded position and closes the gap.
\<close>

fun replay_event :: "Todo list \<Rightarrow> event \<Rightarrow> Todo list" where
  "replay_event ts (TodoAdded i text_arg) = ts @ [\<lparr>text_field = text_arg, completed = False\<rparr>]"
| "replay_event ts (TodoToggled i c) = ts[i := (ts ! i)\<lparr>completed := c\<rparr>]"
| "replay_event ts (TodoRemoved i) = take i ts @ drop (Suc i) ts"

definition replay :: "event list \<Rightarrow> Todo list" where
  "replay evs = foldl replay_event [] evs"

subsection \<open>Entries created and destroyed\<close>

text \<open>
  The lifecycle of the specification, read off an event log: an entry is created by each
  Added event and destroyed by each Removed event; a Toggled event does neither. The
  live entries are those created and not yet destroyed.
\<close>

fun created :: "event list \<Rightarrow> nat" where
  "created [] = 0"
| "created (TodoAdded i text_arg # evs) = Suc (created evs)"
| "created (TodoToggled i c # evs) = created evs"
| "created (TodoRemoved i # evs) = created evs"

fun destroyed :: "event list \<Rightarrow> nat" where
  "destroyed [] = 0"
| "destroyed (TodoAdded i text_arg # evs) = destroyed evs"
| "destroyed (TodoToggled i c # evs) = destroyed evs"
| "destroyed (TodoRemoved i # evs) = Suc (destroyed evs)"

section \<open>What each function computes\<close>

lemma removeTodo_loop_shift:
  "i < length ts \<Longrightarrow>
   removeTodo_loop k i ts =
     Inr (k + (length ts - 1 - i), take i ts @ drop (Suc i) ts @ [last ts])"
proof (induction k i ts rule: removeTodo_loop.induct)
  case (1 k i ts)
  show ?case
  proof (cases "i < length ts - 1")
    case True
    let ?ts' = "ts[i := ts ! Suc i]"
    have step: "removeTodo_loop k i ts = removeTodo_loop (Suc k) (Suc i) ?ts'"
      using True by (subst removeTodo_loop.simps) (auto simp: checked_sub_def array_at_def array_set_def)
    have ih: "removeTodo_loop (Suc k) (Suc i) ?ts' =
        Inr (Suc k + (length ?ts' - 1 - Suc i),
             take (Suc i) ?ts' @ drop (Suc (Suc i)) ?ts' @ [last ?ts'])"
      using True "1.IH"[of "length ts - 1" "ts ! Suc i" ?ts']
      by (simp add: checked_sub_def array_at_def array_set_def)
    have t: "take (Suc i) ?ts' = take i ts @ [ts ! Suc i]"
      using True by (simp add: take_Suc_conv_app_nth)
    have d: "drop (Suc i) ts = ts ! Suc i # drop (Suc (Suc i)) ts"
      using True by (simp add: Cons_nth_drop_Suc)
    have ne: "ts \<noteq> []"
      using True by auto
    have l: "last ?ts' = last ts"
      using True ne by (simp add: last_list_update)
    have n: "Suc k + (length ?ts' - 1 - Suc i) = k + (length ts - 1 - i)"
      using True by simp
    have "removeTodo_loop k i ts =
        Inr (Suc k + (length ?ts' - 1 - Suc i),
             take (Suc i) ?ts' @ drop (Suc (Suc i)) ?ts' @ [last ?ts'])"
      by (rule trans [OF step ih])
    also have "\<dots> = Inr (k + (length ts - 1 - i), take i ts @ drop (Suc i) ts @ [last ts])"
      unfolding n l t d by simp
    finally show ?thesis .
  next
    case False
    with "1.prems" have eq: "i = length ts - 1" by simp
    have "ts \<noteq> []" using "1.prems" by auto
    then have "take (length ts - 1) ts @ [last ts] = ts"
      by (metis append_butlast_last_id butlast_conv_take)
    moreover have "removeTodo_loop k i ts = Inr (k, ts)"
      using False "1.prems" by (subst removeTodo_loop.simps) (simp add: checked_sub_def)
    ultimately show ?thesis using eq by simp
  qed
qed

lemma addTodo_eq:
  "addTodo text_arg s =
     Inr ([], \<lparr>todos = todos s @ [\<lparr>text_field = text_arg, completed = False\<rparr>],
               event_log = event_log s @ [TodoAdded (length (todos s)) text_arg]\<rparr>)"
  by (simp add: addTodo_def checked_sub_def array_push_def emit_def Let_def)

lemma toggleTodo_eq:
  "index < length (todos s) \<Longrightarrow>
   toggleTodo index s =
     Inr ([], \<lparr>todos = (todos s)[index := (todos s ! index)\<lparr>completed := \<not> completed (todos s ! index)\<rparr>],
               event_log = event_log s @ [TodoToggled index (\<not> completed (todos s ! index))]\<rparr>)"
  by (simp add: toggleTodo_def array_at_def array_set_def emit_def Let_def)

lemma toggleTodo_revert:
  "\<not> index < length (todos s) \<Longrightarrow> toggleTodo index s = Inl OutOfRange"
  by (simp add: toggleTodo_def OutOfRange_def)

lemma removeTodo_eq:
  "index < length (todos s) \<Longrightarrow>
   removeTodo index s =
     Inr ([], \<lparr>todos = take index (todos s) @ drop (Suc index) (todos s),
               event_log = event_log s @ [TodoRemoved index]\<rparr>)"
  by (simp add: removeTodo_def removeTodo_loop_shift array_pop_def emit_def
      butlast_append)

lemma removeTodo_revert:
  "\<not> index < length (todos s) \<Longrightarrow> removeTodo index s = Inl OutOfRange"
  by (simp add: removeTodo_def OutOfRange_def)

subsection \<open>Transactions, one call at a time\<close>

lemma transact_AddTodo:
  "transact s (AddTodo text_arg) =
     \<lparr>todos = todos s @ [\<lparr>text_field = text_arg, completed = False\<rparr>],
      event_log = event_log s @ [TodoAdded (length (todos s)) text_arg]\<rparr>"
  by (simp add: transact_def addTodo_eq)

lemma transact_ToggleTodo:
  "index < length (todos s) \<Longrightarrow>
   transact s (ToggleTodo index) =
     \<lparr>todos = (todos s)[index := (todos s ! index)\<lparr>completed := \<not> completed (todos s ! index)\<rparr>],
      event_log = event_log s @ [TodoToggled index (\<not> completed (todos s ! index))]\<rparr>"
  by (simp add: transact_def toggleTodo_eq)

lemma transact_RemoveTodo:
  "index < length (todos s) \<Longrightarrow>
   transact s (RemoveTodo index) =
     \<lparr>todos = take index (todos s) @ drop (Suc index) (todos s),
      event_log = event_log s @ [TodoRemoved index]\<rparr>"
  by (simp add: transact_def removeTodo_eq)

lemma transact_reverted:
  "\<not> index < length (todos s) \<Longrightarrow> transact s (ToggleTodo index) = s"
  "\<not> index < length (todos s) \<Longrightarrow> transact s (RemoveTodo index) = s"
  by (simp_all add: transact_def toggleTodo_revert removeTodo_revert)

lemma run_Nil: "run [] s = s"
  by (simp add: run_def)

lemma run_Cons: "run (c # cs) s = run cs (transact s c)"
  by (simp add: run_def)

subsection \<open>Replay follows every transaction\<close>

lemma replay_snoc: "replay (evs @ [e]) = replay_event (replay evs) e"
  by (simp add: replay_def)

lemma transact_replay:
  assumes "replay (event_log s) = todos s"
  shows "replay (event_log (transact s c)) = todos (transact s c)"
proof (cases c)
  case (AddTodo text_arg)
  then show ?thesis using assms by (simp add: transact_AddTodo replay_snoc)
next
  case (ToggleTodo index)
  show ?thesis
  proof (cases "index < length (todos s)")
    case True
    then show ?thesis using assms ToggleTodo by (simp add: transact_ToggleTodo replay_snoc)
  next
    case False
    then show ?thesis using assms ToggleTodo by (simp add: transact_reverted)
  qed
next
  case (RemoveTodo index)
  show ?thesis
  proof (cases "index < length (todos s)")
    case True
    then show ?thesis using assms RemoveTodo by (simp add: transact_RemoveTodo replay_snoc)
  next
    case False
    then show ?thesis using assms RemoveTodo by (simp add: transact_reverted)
  qed
qed

lemma run_replay:
  "replay (event_log s) = todos s \<Longrightarrow> replay (event_log (run cs s)) = todos (run cs s)"
  by (induction cs arbitrary: s) (simp_all add: run_Nil run_Cons transact_replay)

lemma run_AddTodo_todos:
  "todos (run (map AddTodo texts) s) =
     todos s @ map (\<lambda>text_arg. \<lparr>text_field = text_arg, completed = False\<rparr>) texts"
  by (induction texts arbitrary: s) (simp_all add: run_Nil run_Cons transact_AddTodo)

subsection \<open>The count follows every transaction\<close>

lemma created_append: "created (evs @ evs') = created evs + created evs'"
  by (induction evs rule: created.induct) simp_all

lemma destroyed_append: "destroyed (evs @ evs') = destroyed evs + destroyed evs'"
  by (induction evs rule: destroyed.induct) simp_all

lemma transact_live:
  assumes "length (todos s) + destroyed (event_log s) = created (event_log s)"
  shows "length (todos (transact s c)) + destroyed (event_log (transact s c))
           = created (event_log (transact s c))"
proof (cases c)
  case (AddTodo t)
  then show ?thesis
    using assms by (simp add: transact_AddTodo created_append destroyed_append)
next
  case (ToggleTodo index)
  show ?thesis
  proof (cases "index < length (todos s)")
    case True
    then show ?thesis
      using assms ToggleTodo
      by (simp add: transact_ToggleTodo created_append destroyed_append)
  next
    case False
    then show ?thesis using assms ToggleTodo by (simp add: transact_reverted)
  qed
next
  case (RemoveTodo index)
  show ?thesis
  proof (cases "index < length (todos s)")
    case True
    then have "length (take index (todos s) @ drop (Suc index) (todos s)) + 1
        = length (todos s)"
      by simp
    then show ?thesis
      using assms True RemoveTodo
      by (simp add: transact_RemoveTodo created_append destroyed_append)
  next
    case False
    then show ?thesis using assms RemoveTodo by (simp add: transact_reverted)
  qed
qed

lemma run_live:
  "length (todos s) + destroyed (event_log s) = created (event_log s) \<Longrightarrow>
   length (todos (run cs s)) + destroyed (event_log (run cs s)) = created (event_log (run cs s))"
  by (induction cs arbitrary: s) (simp_all add: run_Nil run_Cons transact_live)

subsection \<open>The example scenario of the specification\<close>

text \<open>
  Append "a", append "b", toggle 0, remove 0, then toggle 5 (which reverts), evaluated
  from the definitions: one entry "b", not completed, is left, and four events were
  emitted.
\<close>

lemma example_scenario:
  "run [AddTodo ''a'', AddTodo ''b'', ToggleTodo 0, RemoveTodo 0, ToggleTodo 5] initial =
     \<lparr>todos = [\<lparr>text_field = ''b'', completed = False\<rparr>],
      event_log = [TodoAdded 0 ''a'', TodoAdded 1 ''b'', TodoToggled 0 True, TodoRemoved 0]\<rparr>"
  by code_simp

lemma example_scenario_revert:
  "toggleTodo 5 (run [AddTodo ''a'', AddTodo ''b'', ToggleTodo 0, RemoveTodo 0] initial)
     = Inl (Error ''Todo does not exist'')"
  by code_simp

lemma example_loop:
  "removeTodo_loop 0 1
     [\<lparr>text_field = ''a'', completed = False\<rparr>, \<lparr>text_field = ''b'', completed = True\<rparr>,
      \<lparr>text_field = ''c'', completed = False\<rparr>, \<lparr>text_field = ''d'', completed = False\<rparr>]
   = Inr (2, [\<lparr>text_field = ''a'', completed = False\<rparr>, \<lparr>text_field = ''c'', completed = False\<rparr>,
              \<lparr>text_field = ''d'', completed = False\<rparr>, \<lparr>text_field = ''d'', completed = False\<rparr>])"
  by code_simp

section \<open>The properties of the specification\<close>

text \<open>
  C1 (event fidelity). For every sequence of calls from the freshly deployed contract,
  reverted ones included, replaying the emitted event log in order rebuilds exactly the
  sequence that \<open>getTodos\<close> returns at the end.
\<close>

theorem event_log_replay_reconstructs:
  "replay (event_log (run cs initial)) = getTodos (run cs initial)"
proof -
  have "replay (event_log initial) = todos initial"
    by (simp add: initial_def replay_def)
  then show ?thesis
    unfolding getTodos_def by (rule run_replay)
qed

text \<open>
  C5 (append). For every state and every string, the empty one included, \<open>addTodo\<close>
  succeeds: the new entry \<open>{text, completed = false}\<close> sits at position \<open>count\<close>, the new
  tail, behind the unchanged earlier entries; the count has grown by one; and the log has
  grown by the one event \<open>TodoAdded(count, text)\<close>.
\<close>

theorem addTodo_appends:
  "\<exists>s'. addTodo text_arg s = Inr ([], s') \<and>
        getTodos s' = getTodos s @ [\<lparr>text_field = text_arg, completed = False\<rparr>] \<and>
        getTodos s' ! getTodoCount s = \<lparr>text_field = text_arg, completed = False\<rparr> \<and>
        getTodoCount s' = getTodoCount s + 1 \<and>
        event_log s' = event_log s @ [TodoAdded (getTodoCount s) text_arg]"
  by (simp add: addTodo_eq getTodos_def getTodoCount_def)

text \<open>
  C6 (append monotonicity). After \<open>N\<close> calls of \<open>addTodo\<close> from the freshly deployed
  contract, with the texts \<open>texts\<close> in call order, the count is \<open>N\<close> and \<open>getTodos\<close>
  returns one entry per call, in call order, each with its text and \<open>completed = false\<close>.
\<close>

theorem appends_from_empty:
  "getTodoCount (run (map AddTodo texts) initial) = length texts \<and>
   getTodos (run (map AddTodo texts) initial) =
     map (\<lambda>text_arg. \<lparr>text_field = text_arg, completed = False\<rparr>) texts \<and>
   map text_field (getTodos (run (map AddTodo texts) initial)) = texts \<and>
   map completed (getTodos (run (map AddTodo texts) initial)) = replicate (length texts) False"
  by (simp add: getTodoCount_def getTodos_def run_AddTodo_todos initial_def comp_def
      map_replicate_const)

text \<open>
  C2 (bounds rejection). For every state and every position \<open>p\<close> with \<open>p \<ge> count\<close>,
  \<open>toggleTodo\<close> and \<open>removeTodo\<close> revert with OutOfRange, and the state after the
  reverted transaction is the state before it: the same count, the same sequence, the
  same event log. A position is a \<open>uint256\<close>, so there is no \<open>p < 0\<close> to pass.
\<close>

theorem out_of_range_rejected:
  assumes "getTodoCount s \<le> p"
  shows "toggleTodo p s = Inl OutOfRange \<and> removeTodo p s = Inl OutOfRange \<and>
         transact s (ToggleTodo p) = s \<and> transact s (RemoveTodo p) = s \<and>
         getTodoCount (transact s (ToggleTodo p)) = getTodoCount s \<and>
         getTodos (transact s (ToggleTodo p)) = getTodos s \<and>
         event_log (transact s (ToggleTodo p)) = event_log s \<and>
         getTodoCount (transact s (RemoveTodo p)) = getTodoCount s \<and>
         getTodos (transact s (RemoveTodo p)) = getTodos s \<and>
         event_log (transact s (RemoveTodo p)) = event_log s"
proof -
  from assms have out: "\<not> p < length (todos s)"
    by (simp add: getTodoCount_def)
  then show ?thesis
    by (simp add: toggleTodo_revert removeTodo_revert transact_reverted)
qed

text \<open>At position 5 of a contract holding the one entry "b".\<close>

theorem out_of_range_rejected_witness:
  "getTodoCount (run [AddTodo ''b''] initial) \<le> 5 \<and>
   toggleTodo 5 (run [AddTodo ''b''] initial) = Inl OutOfRange \<and>
   removeTodo 5 (run [AddTodo ''b''] initial) = Inl OutOfRange \<and>
   event_log (transact (run [AddTodo ''b''] initial) (ToggleTodo 5)) = [TodoAdded 0 ''b''] \<and>
   event_log (transact (run [AddTodo ''b''] initial) (RemoveTodo 5)) = [TodoAdded 0 ''b'']"
proof -
  have h: "getTodoCount (run [AddTodo ''b''] initial) \<le> 5"
    by (simp add: getTodoCount_def run_Cons run_Nil transact_AddTodo initial_def)
  have l: "event_log (run [AddTodo ''b''] initial) = [TodoAdded 0 ''b'']"
    by (simp add: run_Cons run_Nil transact_AddTodo initial_def)
  from out_of_range_rejected [OF h] h l show ?thesis
    by simp
qed

text \<open>
  C3 (remove compaction). For every state and every position \<open>p < count\<close>,
  \<open>removeTodo\<close> succeeds; afterwards the count is smaller by exactly one, every entry
  formerly at a position \<open>i > p\<close> is at \<open>i - 1\<close>, every entry at a position below
  \<open>p\<close> is where it was, the surviving entries keep their order (the sequence is the old
  one with position \<open>p\<close> cut out), and the log has grown by the one event
  \<open>TodoRemoved(p)\<close>, \<open>p\<close> being the position before the shift.
\<close>

theorem removeTodo_compacts:
  assumes "p < getTodoCount s"
  shows "\<exists>s'. removeTodo p s = Inr ([], s') \<and>
           getTodoCount s' + 1 = getTodoCount s \<and>
           (\<forall>i. i < p \<longrightarrow> getTodos s' ! i = getTodos s ! i) \<and>
           (\<forall>i. p < i \<and> i < getTodoCount s \<longrightarrow> getTodos s' ! (i - 1) = getTodos s ! i) \<and>
           getTodos s' = take p (getTodos s) @ drop (Suc p) (getTodos s) \<and>
           event_log s' = event_log s @ [TodoRemoved p]"
proof -
  let ?ts = "todos s"
  let ?ts' = "take p ?ts @ drop (Suc p) ?ts"
  from assms have valid: "p < length ?ts"
    by (simp add: getTodoCount_def)
  have len: "length ?ts' + 1 = length ?ts"
    using valid by simp
  have low: "?ts' ! i = ?ts ! i" if "i < p" for i
    using that valid by (simp add: nth_append)
  have high: "?ts' ! (i - 1) = ?ts ! i" if "p < i" "i < length ?ts" for i
  proof -
    have "\<not> i - 1 < length (take p ?ts)"
      using that valid by simp
    moreover have "i - 1 - length (take p ?ts) = i - 1 - p"
      using valid by simp
    moreover have "Suc p + (i - 1 - p) = i"
      using that by simp
    ultimately show ?thesis
      using that by (simp add: nth_append)
  qed
  show ?thesis
    using valid len low high
    by (simp add: removeTodo_eq getTodos_def getTodoCount_def)
qed

text \<open>Removing position 0 of the entries "a", "b" leaves "b" at position 0.\<close>

theorem removeTodo_compacts_witness:
  "0 < getTodoCount (run [AddTodo ''a'', AddTodo ''b''] initial) \<and>
   (\<exists>s'. removeTodo 0 (run [AddTodo ''a'', AddTodo ''b''] initial) = Inr ([], s') \<and>
         getTodoCount s' + 1 = 2 \<and>
         getTodos s' = [\<lparr>text_field = ''b'', completed = False\<rparr>] \<and>
         event_log s' = [TodoAdded 0 ''a'', TodoAdded 1 ''b'', TodoRemoved 0])"
proof -
  let ?s = "run [AddTodo ''a'', AddTodo ''b''] initial"
  have s: "?s = \<lparr>todos = [\<lparr>text_field = ''a'', completed = False\<rparr>,
                           \<lparr>text_field = ''b'', completed = False\<rparr>],
                  event_log = [TodoAdded 0 ''a'', TodoAdded 1 ''b'']\<rparr>"
    by (simp add: run_Cons run_Nil transact_AddTodo initial_def)
  have h: "0 < getTodoCount ?s"
    by (simp add: s getTodoCount_def)
  from removeTodo_compacts [OF h] obtain s' where
    "removeTodo 0 ?s = Inr ([], s')" "getTodoCount s' + 1 = getTodoCount ?s"
    "getTodos s' = take 0 (getTodos ?s) @ drop (Suc 0) (getTodos ?s)"
    "event_log s' = event_log ?s @ [TodoRemoved 0]"
    by blast
  then show ?thesis
    using h by (simp add: s getTodos_def getTodoCount_def)
qed

text \<open>
  C4 (toggle involution). For every state and every position \<open>p < count\<close>,
  \<open>toggleTodo p\<close> succeeds and the flag at \<open>p\<close> is afterwards the negation of what it
  was; a second \<open>toggleTodo p\<close> right after succeeds too and the flag at \<open>p\<close>, as the
  whole sequence, is again what it was before the first call.
\<close>

theorem toggleTodo_involution:
  assumes "p < getTodoCount s"
  shows "\<exists>s1 s2. toggleTodo p s = Inr ([], s1) \<and>
           completed (getTodos s1 ! p) = (\<not> completed (getTodos s ! p)) \<and>
           toggleTodo p s1 = Inr ([], s2) \<and>
           completed (getTodos s2 ! p) = completed (getTodos s ! p) \<and>
           getTodos s2 = getTodos s"
proof -
  let ?t = "todos s ! p"
  let ?s1 = "\<lparr>todos = (todos s)[p := ?t\<lparr>completed := \<not> completed ?t\<rparr>],
              event_log = event_log s @ [TodoToggled p (\<not> completed ?t)]\<rparr>"
  from assms have valid: "p < length (todos s)"
    by (simp add: getTodoCount_def)
  have once: "toggleTodo p s = Inr ([], ?s1)"
    using valid by (rule toggleTodo_eq)
  have valid1: "p < length (todos ?s1)"
    using valid by simp
  have same: "(todos s)[p := ?t] = todos s"
    by (rule list_update_id)
  have twice: "\<exists>s2. toggleTodo p ?s1 = Inr ([], s2) \<and> todos s2 = todos s"
    using valid same by (simp add: toggleTodo_eq [OF valid1])
  then obtain s2 where "toggleTodo p ?s1 = Inr ([], s2)" "todos s2 = todos s"
    by blast
  with once valid show ?thesis
    by (auto simp: getTodos_def)
qed

text \<open>Toggling position 0 of the entries "a", "b" twice: true, then false again.\<close>

theorem toggleTodo_involution_witness:
  "0 < getTodoCount (run [AddTodo ''a'', AddTodo ''b''] initial) \<and>
   (\<exists>s1 s2. toggleTodo 0 (run [AddTodo ''a'', AddTodo ''b''] initial) = Inr ([], s1) \<and>
            completed (getTodos s1 ! 0) = True \<and>
            toggleTodo 0 s1 = Inr ([], s2) \<and>
            completed (getTodos s2 ! 0) = False)"
proof -
  let ?s = "run [AddTodo ''a'', AddTodo ''b''] initial"
  have s: "?s = \<lparr>todos = [\<lparr>text_field = ''a'', completed = False\<rparr>,
                           \<lparr>text_field = ''b'', completed = False\<rparr>],
                  event_log = [TodoAdded 0 ''a'', TodoAdded 1 ''b'']\<rparr>"
    by (simp add: run_Cons run_Nil transact_AddTodo initial_def)
  have h: "0 < getTodoCount ?s"
    by (simp add: s getTodoCount_def)
  have c: "completed (getTodos ?s ! 0) = False"
    by (simp add: s getTodos_def)
  from toggleTodo_involution [OF h] c h show ?thesis
    by auto
qed

text \<open>
  C10 (toggle frame). For every state and every position \<open>p < count\<close>, \<open>toggleTodo p\<close>
  leaves the count as it was, leaves the text of every entry as it was, the one at \<open>p\<close>
  included, leaves every entry at another position as it was, and makes the event log
  longer by exactly one event, \<open>TodoToggled\<close> with \<open>p\<close> and the new flag.
\<close>

theorem toggleTodo_frame:
  assumes "p < getTodoCount s"
  shows "\<exists>s'. toggleTodo p s = Inr ([], s') \<and>
           getTodoCount s' = getTodoCount s \<and>
           map text_field (getTodos s') = map text_field (getTodos s) \<and>
           (\<forall>i. i < getTodoCount s \<and> i \<noteq> p \<longrightarrow> getTodos s' ! i = getTodos s ! i) \<and>
           event_log s' = event_log s @ [TodoToggled p (completed (getTodos s' ! p))]"
proof -
  let ?t = "todos s ! p"
  from assms have valid: "p < length (todos s)"
    by (simp add: getTodoCount_def)
  have "text_field ?t = map text_field (todos s) ! p"
    using valid by simp
  then have texts: "map text_field ((todos s)[p := ?t\<lparr>completed := \<not> completed ?t\<rparr>])
      = map text_field (todos s)"
    by (simp add: map_update)
  show ?thesis
    using valid texts by (simp add: toggleTodo_eq getTodos_def getTodoCount_def)
qed

text \<open>Toggling position 1 of the entries "a", "b": both texts stay, one event more.\<close>

theorem toggleTodo_frame_witness:
  "1 < getTodoCount (run [AddTodo ''a'', AddTodo ''b''] initial) \<and>
   (\<exists>s'. toggleTodo 1 (run [AddTodo ''a'', AddTodo ''b''] initial) = Inr ([], s') \<and>
         getTodoCount s' = 2 \<and>
         map text_field (getTodos s') = [''a'', ''b''] \<and>
         event_log s' =
           [TodoAdded 0 ''a'', TodoAdded 1 ''b'', TodoToggled 1 (completed (getTodos s' ! 1))])"
proof -
  let ?s = "run [AddTodo ''a'', AddTodo ''b''] initial"
  have s: "?s = \<lparr>todos = [\<lparr>text_field = ''a'', completed = False\<rparr>,
                           \<lparr>text_field = ''b'', completed = False\<rparr>],
                  event_log = [TodoAdded 0 ''a'', TodoAdded 1 ''b'']\<rparr>"
    by (simp add: run_Cons run_Nil transact_AddTodo initial_def)
  have h: "1 < getTodoCount ?s"
    by (simp add: s getTodoCount_def)
  from toggleTodo_frame [OF h] obtain s' where
    "toggleTodo 1 ?s = Inr ([], s')" "getTodoCount s' = getTodoCount ?s"
    "map text_field (getTodos s') = map text_field (getTodos ?s)"
    "event_log s' = event_log ?s @ [TodoToggled 1 (completed (getTodos s' ! 1))]"
    by blast
  then show ?thesis
    using h by (simp add: s getTodos_def getTodoCount_def)
qed

text \<open>
  C7 (what append hands back). The claim that \<open>addTodo\<close> returns the position of the
  new entry fails on the freshly deployed contract: the call \<open>addTodo("a")\<close> creates the
  entry at position 0 and returns no value at all.
\<close>

theorem addTodo_returns_position_counterexample:
  "\<not> (\<exists>s'. addTodo ''a'' initial = Inr ([VUint (getTodoCount initial)], s'))"
  by (simp add: addTodo_eq)

text \<open>
  C7 as amended. For every state and every string, \<open>addTodo\<close> succeeds and returns no
  value; the position of the new entry, which is the count before the call, reaches the
  outside only as the first argument of the \<open>TodoAdded\<close> event, the last event of the
  log after the call.
\<close>

theorem addTodo_returns_nothing:
  "\<exists>s'. addTodo text_arg s = Inr ([], s') \<and>
        last (event_log s') = TodoAdded (getTodoCount s) text_arg \<and>
        getTodos s' ! getTodoCount s = \<lparr>text_field = text_arg, completed = False\<rparr>"
  by (simp add: addTodo_eq getTodos_def getTodoCount_def)

text \<open>
  C8 (contiguous positions). In every state reached from the freshly deployed contract by
  any sequence of calls, reverted ones included: the count is the number of entries that
  \<open>getTodos\<close> returns; it is the number of live entries, those created by an Added
  event of the log and not destroyed by a Removed one, so no removal leaves a gap that
  is still counted; and the positions that \<open>toggleTodo\<close> and \<open>removeTodo\<close> accept
  are exactly those below the count. The count is computed from the array, which is all
  the storage there is.
\<close>

theorem positions_contiguous:
  "getTodoCount (run cs initial) = length (getTodos (run cs initial)) \<and>
   getTodoCount (run cs initial) + destroyed (event_log (run cs initial))
     = created (event_log (run cs initial)) \<and>
   (\<forall>p. (\<exists>s'. toggleTodo p (run cs initial) = Inr ([], s')) = (p < getTodoCount (run cs initial))) \<and>
   (\<forall>p. (\<exists>s'. removeTodo p (run cs initial) = Inr ([], s')) = (p < getTodoCount (run cs initial)))"
proof -
  let ?s = "run cs initial"
  have "length (todos initial) + destroyed (event_log initial) = created (event_log initial)"
    by (simp add: initial_def)
  then have live: "length (todos ?s) + destroyed (event_log ?s) = created (event_log ?s)"
    by (rule run_live)
  have tog: "(\<exists>s'. toggleTodo p ?s = Inr ([], s')) = (p < length (todos ?s))" for p
    by (cases "p < length (todos ?s)") (simp_all add: toggleTodo_eq toggleTodo_revert)
  have rem: "(\<exists>s'. removeTodo p ?s = Inr ([], s')) = (p < length (todos ?s))" for p
    by (cases "p < length (todos ?s)") (simp_all add: removeTodo_eq removeTodo_revert)
  show ?thesis
    using live by (simp add: getTodoCount_def getTodos_def tog rem)
qed

text \<open>
  C9 (termination). Every function of the contract returns on every input: \<open>addTodo\<close>
  always with success, \<open>toggleTodo\<close> and \<open>removeTodo\<close> with success or with the
  OutOfRange revert, never with a panic; \<open>getTodos\<close> and \<open>getTodoCount\<close> read the array
  once. For \<open>p < count\<close> the shifting loop of \<open>removeTodo\<close> ends without a panic after
  exactly \<open>count - 1 - p\<close> executions of its body, which is fewer than \<open>count\<close>.
\<close>

theorem operations_terminate:
  "(\<exists>s'. addTodo text_arg s = Inr ([], s')) \<and>
   (toggleTodo p s = Inl OutOfRange \<or> (\<exists>s'. toggleTodo p s = Inr ([], s'))) \<and>
   (removeTodo p s = Inl OutOfRange \<or> (\<exists>s'. removeTodo p s = Inr ([], s'))) \<and>
   getTodos s = todos s \<and> getTodoCount s = length (todos s) \<and>
   (p < getTodoCount s \<longrightarrow>
      (\<exists>ts. removeTodo_loop 0 p (todos s) = Inr (getTodoCount s - 1 - p, ts)) \<and>
      getTodoCount s - 1 - p < getTodoCount s)"
proof -
  have tog: "toggleTodo p s = Inl OutOfRange \<or> (\<exists>s'. toggleTodo p s = Inr ([], s'))"
    by (cases "p < length (todos s)") (simp_all add: toggleTodo_eq toggleTodo_revert)
  have rem: "removeTodo p s = Inl OutOfRange \<or> (\<exists>s'. removeTodo p s = Inr ([], s'))"
    by (cases "p < length (todos s)") (simp_all add: removeTodo_eq removeTodo_revert)
  have loop: "\<exists>ts. removeTodo_loop 0 p (todos s) = Inr (length (todos s) - 1 - p, ts)"
    if "p < length (todos s)"
    using that by (simp add: removeTodo_loop_shift)
  have less: "length (todos s) - 1 - p < length (todos s)" if "p < length (todos s)"
    using that by simp
  show ?thesis
    using tog rem loop less by (simp add: addTodo_eq getTodos_def getTodoCount_def)
qed

text \<open>Removing position 0 of three entries: the loop body runs twice.\<close>

theorem operations_terminate_witness:
  "0 < getTodoCount (run [AddTodo ''a'', AddTodo ''b'', AddTodo ''c''] initial) \<and>
   (\<exists>ts. removeTodo_loop 0 0 (todos (run [AddTodo ''a'', AddTodo ''b'', AddTodo ''c''] initial))
          = Inr (2, ts))"
proof -
  let ?s = "run [AddTodo ''a'', AddTodo ''b'', AddTodo ''c''] initial"
  have n: "getTodoCount ?s = 3"
    by (simp add: run_Cons run_Nil transact_AddTodo initial_def getTodoCount_def)
  from operations_terminate [of "''a''" ?s 0] show ?thesis
    by (simp add: n)
qed

end
